theory Spec2Isabelle
  imports Complex_Main "HOL-Library.Multiset"
begin

section \<open>Python values and exceptions\<close>

text \<open>
  The exceptions the modelled code can raise.  A raise is the value \<open>Inl e\<close> of a sum type;
  a normal return is \<open>Inr v\<close>.
\<close>

datatype py_error =
    IndexError | AttributeError | TypeError | JSONDecodeError | UnicodeDecodeError | ValueError

text \<open>
  Python list indexing \<open>xs[i]\<close> with an unbounded integer index: a negative index counts
  from the end, an index outside \<open>-len(xs) .. len(xs) - 1\<close> raises \<open>IndexError\<close>.
\<close>

definition py_index :: "'a list \<Rightarrow> int \<Rightarrow> py_error + 'a" where
  "py_index xs i =
     (if 0 \<le> i \<and> i < int (length xs) then Inr (xs ! nat i)
      else if i < 0 \<and> - int (length xs) \<le> i then Inr (xs ! nat (int (length xs) + i))
      else Inl IndexError)"

section \<open>TrajectoryReplayState\<close>

text \<open>
  The dataclass \<open>TrajectoryReplayState\<close>: the list \<open>responses\<close> and the integer
  \<open>current_index\<close>.  The field \<open>_lock\<close> is a mutex held for the whole body of each method;
  in a single thread acquiring and releasing it has no effect on the two data fields, so the
  sequential model leaves it out.  The interleaving model further down carries it explicitly.
\<close>

record 'e TrajectoryReplayState =
  responses :: "'e list"
  current_index :: int

text \<open>\<open>TrajectoryReplayState(responses=rs)\<close>: \<open>current_index\<close> takes its default 0.\<close>

definition TrajectoryReplayState_init :: "'e list \<Rightarrow> 'e TrajectoryReplayState" where
  "TrajectoryReplayState_init rs = \<lparr>responses = rs, current_index = 0\<rparr>"

text \<open>
  \<open>get_next_response\<close> returns the drawn event (or \<open>None\<close>) and the updated state.  The
  subscript is evaluated before the increment, so a raise leaves the state as it was.
\<close>

definition get_next_response ::
  "'e TrajectoryReplayState \<Rightarrow> py_error + ('e option \<times> 'e TrajectoryReplayState)" where
  "get_next_response s =
     (if current_index s \<ge> int (length (responses s)) then Inr (None, s)
      else case py_index (responses s) (current_index s) of
             Inl e \<Rightarrow> Inl e
           | Inr response \<Rightarrow> Inr (Some response, s\<lparr>current_index := current_index s + 1\<rparr>))"

definition peek_next_response ::
  "'e TrajectoryReplayState \<Rightarrow> py_error + ('e option \<times> 'e TrajectoryReplayState)" where
  "peek_next_response s =
     (if current_index s \<ge> int (length (responses s)) then Inr (None, s)
      else case py_index (responses s) (current_index s) of
             Inl e \<Rightarrow> Inl e
           | Inr response \<Rightarrow> Inr (Some response, s))"

definition reset :: "'e TrajectoryReplayState \<Rightarrow> 'e TrajectoryReplayState" where
  "reset s = s\<lparr>current_index := 0\<rparr>"

text \<open>The invariant of the replay cursor.\<close>

definition cursor_inv :: "'e TrajectoryReplayState \<Rightarrow> bool" where
  "cursor_inv s \<longleftrightarrow> 0 \<le> current_index s \<and> current_index s \<le> int (length (responses s))"

text \<open>
  A caller making \<open>n\<close> calls of \<open>get_next_response\<close> one after the other, collecting the
  results in call order; a raise in any call ends the sequence.
\<close>

fun draw_n ::
  "nat \<Rightarrow> 'e TrajectoryReplayState \<Rightarrow> py_error + ('e option list \<times> 'e TrajectoryReplayState)" where
  "draw_n 0 s = Inr ([], s)"
| "draw_n (Suc n) s =
     (case get_next_response s of
        Inl e \<Rightarrow> Inl e
      | Inr (r, s') \<Rightarrow>
          (case draw_n n s' of
             Inl e \<Rightarrow> Inl e
           | Inr (rs, s'') \<Rightarrow> Inr (r # rs, s'')))"

section \<open>JSON values\<close>

text \<open>
  The values \<open>json.loads\<close> produces and \<open>json.dumps\<close> consumes, which are also the values of
  the \<open>dict[str, Any]\<close> fields of a trajectory event.  A \<open>dict\<close> is an association list in
  insertion order with the first binding of a key the one that counts; a float is given by
  the real number it denotes (the code only ever tests one for being zero).
\<close>

datatype json =
    JNull
  | JBool bool
  | JInt int
  | JFloat real
  | JStr string
  | JList "json list"
  | JDict "(string \<times> json) list"

type_synonym dict = "(string \<times> json) list"

text \<open>\<open>d.get(k, dflt)\<close>.\<close>

definition dict_get :: "dict \<Rightarrow> string \<Rightarrow> json \<Rightarrow> json" where
  "dict_get d k dflt = (case map_of d k of None \<Rightarrow> dflt | Some v \<Rightarrow> v)"

text \<open>Python truthiness, as \<open>if stream:\<close> and \<open>x and y\<close> test it.\<close>

fun truthy :: "json \<Rightarrow> bool" where
  "truthy JNull = False"
| "truthy (JBool b) = b"
| "truthy (JInt i) = (i \<noteq> 0)"
| "truthy (JFloat x) = (x \<noteq> 0)"
| "truthy (JStr s) = (s \<noteq> [])"
| "truthy (JList xs) = (xs \<noteq> [])"
| "truthy (JDict d) = (d \<noteq> [])"

text \<open>Truthiness of an optional dict: \<open>None\<close> and \<open>{}\<close> are false.\<close>

fun dict_truthy :: "dict option \<Rightarrow> bool" where
  "dict_truthy None = False"
| "dict_truthy (Some d) = (d \<noteq> [])"

text \<open>Reading a JSON value by key and by position; \<open>None\<close> where the path does not exist.\<close>

fun json_key :: "string \<Rightarrow> json \<Rightarrow> json option" where
  "json_key k (JDict d) = map_of d k"
| "json_key k _ = None"

fun json_item :: "nat \<Rightarrow> json \<Rightarrow> json option" where
  "json_item n (JList xs) = (if n < length xs then Some (xs ! n) else None)"
| "json_item n _ = None"

section \<open>Time and random identifiers\<close>

text \<open>
  \<open>uuid.uuid4()\<close> and \<open>time.time()\<close> are the two sources of nondeterminism.  The world
  holds what each successive call returns (\<open>uuid_hex w k\<close> is the \<open>hex\<close> of the \<open>k\<close>-th uuid
  drawn, \<open>clock w k\<close> the \<open>k\<close>-th reading of \<open>int(time.time())\<close>) and counts the calls made.
\<close>

record world =
  uuid_hex :: "nat \<Rightarrow> string"
  uuid_calls :: nat
  clock :: "nat \<Rightarrow> int"
  clock_calls :: nat

definition uuid4_hex :: "world \<Rightarrow> string \<times> world" where
  "uuid4_hex w = (uuid_hex w (uuid_calls w), w\<lparr>uuid_calls := Suc (uuid_calls w)\<rparr>)"

definition time_now :: "world \<Rightarrow> int \<times> world" where
  "time_now w = (clock w (clock_calls w), w\<lparr>clock_calls := Suc (clock_calls w)\<rparr>)"

section \<open>OpenAIResponseBuilder\<close>

definition DEFAULT_USAGE :: json where
  "DEFAULT_USAGE =
     JDict [(''prompt_tokens'', JInt 100), (''completion_tokens'', JInt 50), (''total_tokens'', JInt 150)]"

definition build_completion :: "string \<Rightarrow> json \<Rightarrow> string \<Rightarrow> world \<Rightarrow> json \<times> world" where
  "build_completion completion_id message finish_reason w =
     (case time_now w of (created, w') \<Rightarrow>
        (JDict [(''id'', JStr completion_id),
                (''object'', JStr ''chat.completion''),
                (''created'', JInt created),
                (''model'', JStr ''mock-llm''),
                (''choices'',
                   JList [JDict [(''index'', JInt 0), (''message'', message),
                                 (''finish_reason'', JStr finish_reason)]]),
                (''usage'', DEFAULT_USAGE)],
         w'))"

text \<open>\<open>finish_reason\<close> is \<open>str | None\<close>, default \<open>None\<close>.\<close>

definition build_stream_chunk :: "string \<Rightarrow> json \<Rightarrow> string option \<Rightarrow> world \<Rightarrow> json \<times> world" where
  "build_stream_chunk completion_id delta finish_reason w =
     (case time_now w of (created, w') \<Rightarrow>
        (JDict [(''id'', JStr completion_id),
                (''object'', JStr ''chat.completion.chunk''),
                (''created'', JInt created),
                (''model'', JStr ''mock-llm''),
                (''choices'',
                   JList [JDict [(''index'', JInt 0), (''delta'', delta),
                                 (''finish_reason'',
                                    (case finish_reason of None \<Rightarrow> JNull | Some r \<Rightarrow> JStr r))]])],
         w'))"

definition build_message_chunks :: "string \<Rightarrow> string \<Rightarrow> string \<Rightarrow> world \<Rightarrow> json list \<times> world" where
  "build_message_chunks completion_id content finish_reason w =
     (case build_stream_chunk completion_id
             (JDict [(''role'', JStr ''assistant''), (''content'', JStr [])]) None w of
        (c1, w1) \<Rightarrow>
     (case build_stream_chunk completion_id (JDict [(''content'', JStr content)]) None w1 of
        (c2, w2) \<Rightarrow>
     (case build_stream_chunk completion_id (JDict []) (Some finish_reason) w2 of
        (c3, w3) \<Rightarrow> ([c1, c2, c3], w3))))"

text \<open>
  The three arguments after \<open>completion_id\<close> are annotated \<open>str\<close>, but the caller passes what
  \<open>tool_call.get\<close> returned, which can be any value: they are \<open>json\<close> here.
\<close>

definition build_tool_call_chunks :: "string \<Rightarrow> json \<Rightarrow> json \<Rightarrow> json \<Rightarrow> world \<Rightarrow> json list \<times> world" where
  "build_tool_call_chunks completion_id tool_call_id name arguments w =
     (case build_stream_chunk completion_id
             (JDict [(''role'', JStr ''assistant''),
                     (''content'', JNull),
                     (''tool_calls'',
                        JList [JDict [(''index'', JInt 0),
                                      (''id'', tool_call_id),
                                      (''type'', JStr ''function''),
                                      (''function'',
                                         JDict [(''name'', name), (''arguments'', JStr [])])]])])
             None w of
        (c1, w1) \<Rightarrow>
     (case build_stream_chunk completion_id
             (JDict [(''tool_calls'',
                        JList [JDict [(''index'', JInt 0),
                                      (''function'', JDict [(''arguments'', arguments)])]])])
             None w1 of
        (c2, w2) \<Rightarrow>
     (case build_stream_chunk completion_id (JDict []) (Some ''tool_calls'') w2 of
        (c3, w3) \<Rightarrow> ([c1, c2, c3], w3))))"

section \<open>TrajectoryResponseConverter\<close>

text \<open>
  Modelled from the spec: the class \<open>TrajectoryEvent\<close> is declared in
  \<open>tui_e2e/trajectory.py\<close>, which is not among the sources.  The record has the four
  attributes the converter reads, typed as the data model of the spec gives them: the tag
  \<open>kind\<close>, the optional dicts \<open>tool_call\<close> and \<open>llm_message\<close> and the optional string
  \<open>tool_name\<close>.
\<close>

record TrajectoryEvent =
  kind :: string
  tool_call :: "dict option"
  llm_message :: "dict option"
  tool_name :: "string option"

text \<open>
  The value every conversion returns: a dict with exactly the keys \<open>completion\<close> and
  \<open>stream_chunks\<close>.
\<close>

record envelope =
  completion :: json
  stream_chunks :: "json list"

text \<open>
  \<open>create_default_response(content)\<close>; a call without argument passes the default
  \<open>Task completed.\<close>  The dict display evaluates \<open>build_completion\<close> before
  \<open>build_message_chunks\<close>.
\<close>

definition create_default_response :: "string \<Rightarrow> world \<Rightarrow> envelope \<times> world" where
  "create_default_response content w =
     (case uuid4_hex w of (u, w1) \<Rightarrow>
        let completion_id = ''chatcmpl-'' @ take 24 u in
     (case build_completion completion_id
             (JDict [(''role'', JStr ''assistant''), (''content'', JStr content)]) ''stop'' w1 of
        (c, w2) \<Rightarrow>
     (case build_message_chunks completion_id content ''stop'' w2 of
        (chunks, w3) \<Rightarrow> (\<lparr>completion = c, stream_chunks = chunks\<rparr>, w3))))"

text \<open>
  The default of \<open>tool_call.get("id", f"call_{uuid.uuid4().hex[:24]}")\<close> is an argument, so
  its uuid is drawn whether or not the key is present.
\<close>

definition create_tool_call_response :: "TrajectoryEvent \<Rightarrow> world \<Rightarrow> envelope \<times> world" where
  "create_tool_call_response event w =
     (case tool_call event of
        None \<Rightarrow> create_default_response ''Task completed.'' w
      | Some tc \<Rightarrow>
        if tc = [] then create_default_response ''Task completed.'' w
        else
        (case uuid4_hex w of (u1, w1) \<Rightarrow>
           let tool_call_id = dict_get tc ''id'' (JStr (''call_'' @ take 24 u1));
               name = dict_get tc ''name''
                        (JStr (case tool_name event of
                                 None \<Rightarrow> ''unknown''
                               | Some n \<Rightarrow> if n = [] then ''unknown'' else n));
               arguments = dict_get tc ''arguments'' (JStr ''{}'')
           in
        (case uuid4_hex w1 of (u2, w2) \<Rightarrow>
           let completion_id = ''chatcmpl-'' @ take 24 u2;
               message = JDict [(''role'', JStr ''assistant''),
                                (''content'', JNull),
                                (''tool_calls'',
                                   JList [JDict [(''id'', tool_call_id),
                                                 (''type'', JStr ''function''),
                                                 (''function'',
                                                    JDict [(''name'', name),
                                                           (''arguments'', arguments)])]])]
           in
        (case build_completion completion_id message ''tool_calls'' w2 of
           (c, w3) \<Rightarrow>
        (case build_tool_call_chunks completion_id tool_call_id name arguments w3 of
           (chunks, w4) \<Rightarrow> (\<lparr>completion = c, stream_chunks = chunks\<rparr>, w4))))))"

text \<open>
  The generator of \<open>_extract_content\<close>: for each item that is a dict whose \<open>type\<close> is the
  string \<open>text\<close>, the value \<open>item.get("text", "")\<close>, in order.
\<close>

fun text_parts :: "json list \<Rightarrow> json list" where
  "text_parts [] = []"
| "text_parts (JDict d # items) =
     (if dict_get d ''type'' JNull = JStr ''text''
      then dict_get d ''text'' (JStr []) # text_parts items
      else text_parts items)"
| "text_parts (_ # items) = text_parts items"

text \<open>The join of the empty string: raises \<open>TypeError\<close> when a part is not a string.\<close>

fun str_join :: "json list \<Rightarrow> py_error + string" where
  "str_join [] = Inr []"
| "str_join (JStr s # parts) =
     (case str_join parts of Inl e \<Rightarrow> Inl e | Inr t \<Rightarrow> Inr (s @ t))"
| "str_join (_ # parts) = Inl TypeError"

definition extract_content :: "dict \<Rightarrow> py_error + string" where
  "extract_content llm_msg =
     (case dict_get llm_msg ''content'' (JStr []) of
        JStr s \<Rightarrow> Inr s
      | JList items \<Rightarrow> str_join (text_parts items)
      | _ \<Rightarrow> Inr [])"

text \<open>The uuid of the completion id is drawn before the content is extracted.\<close>

definition create_message_response ::
  "TrajectoryEvent \<Rightarrow> world \<Rightarrow> (py_error + envelope) \<times> world" where
  "create_message_response event w =
     (case llm_message event of
        None \<Rightarrow> (case create_default_response ''Task completed.'' w of (env, w') \<Rightarrow> (Inr env, w'))
      | Some llm_msg \<Rightarrow>
        if llm_msg = []
        then (case create_default_response ''Task completed.'' w of (env, w') \<Rightarrow> (Inr env, w'))
        else
        (case uuid4_hex w of (u, w1) \<Rightarrow>
           let completion_id = ''chatcmpl-'' @ take 24 u in
        (case extract_content llm_msg of
           Inl e \<Rightarrow> (Inl e, w1)
         | Inr content \<Rightarrow>
        (case build_completion completion_id
                (JDict [(''role'', JStr ''assistant''), (''content'', JStr content)]) ''stop'' w1 of
           (c, w2) \<Rightarrow>
        (case build_message_chunks completion_id content ''stop'' w2 of
           (chunks, w3) \<Rightarrow> (Inr \<lparr>completion = c, stream_chunks = chunks\<rparr>, w3))))))"

definition convert_event :: "TrajectoryEvent \<Rightarrow> world \<Rightarrow> (py_error + envelope) \<times> world" where
  "convert_event event w =
     (if kind event = ''ActionEvent'' \<and> dict_truthy (tool_call event)
      then (case create_tool_call_response event w of (env, w') \<Rightarrow> (Inr env, w'))
      else if kind event = ''MessageEvent'' \<and> dict_truthy (llm_message event)
      then create_message_response event w
      else (case create_default_response ''Task completed.'' w of (env, w') \<Rightarrow> (Inr env, w')))"

section \<open>The request handler\<close>

text \<open>
  A response body is a string built from literal text and \<open>json.dumps\<close> of values; it is
  kept as the list of its pieces, \<open>Dumps v\<close> standing for the text \<open>json.dumps(v)\<close>.
\<close>

datatype piece = Lit string | Dumps json

record response =
  status :: int
  content_type :: string
  headers :: "(string \<times> string) list"
  body :: "piece list"

text \<open>
  The request as the handler reads it: \<open>path\<close>, \<open>method\<close>, and \<open>data\<close>, the outcome of
  \<open>json.loads(request.data)\<close> (the parsed value, or the exception the parser raised).
\<close>

record request =
  path :: string
  "method" :: string
  data :: "py_error + json"

definition format_sse_response :: "json list \<Rightarrow> piece list" where
  "format_sse_response chunks =
     concat (map (\<lambda>chunk. [Lit ''data: '', Dumps chunk, Lit [CHR 0x0A, CHR 0x0A]]) chunks)
     @ [Lit (''data: [DONE]'' @ [CHR 0x0A, CHR 0x0A])]"

text \<open>\<open>Response(json.dumps(v), status=st, content_type="application/json")\<close>.\<close>

definition json_response :: "int \<Rightarrow> json \<Rightarrow> response" where
  "json_response st v =
     \<lparr>status = st, content_type = ''application/json'', headers = [], body = [Dumps v]\<rparr>"

definition sse_response :: "json list \<Rightarrow> response" where
  "sse_response chunks =
     \<lparr>status = 200, content_type = ''text/event-stream'',
      headers = [(''Cache-Control'', ''no-cache''), (''Connection'', ''keep-alive'')],
      body = format_sse_response chunks\<rparr>"

text \<open>
  The handler returns what the call produced (a response, or the exception that left it)
  together with the replay state and the world after the call.  Only \<open>JSONDecodeError\<close> is
  caught around \<open>json.loads\<close>; \<open>request_data.get\<close> exists on a dict only.
\<close>

definition handler ::
  "TrajectoryEvent TrajectoryReplayState \<Rightarrow> world \<Rightarrow> request \<Rightarrow>
     (py_error + response) \<times> TrajectoryEvent TrajectoryReplayState \<times> world" where
  "handler replay_state w req =
     (if (path req = ''/health'' \<or> path req = ''/'') \<and> method req = ''GET'' then
        let remaining = int (length (responses replay_state)) - current_index replay_state in
        (Inr (json_response 200
               (JDict [(''status'', JStr ''ok''),
                       (''server'', JStr ''mock-llm-trajectory''),
                       (''responses_remaining'', JInt remaining)])),
         replay_state, w)
      else if path req = ''/reset'' \<and> method req = ''GET'' then
        (Inr (json_response 200 (JDict [(''status'', JStr ''reset'')])), reset replay_state, w)
      else if (path req = ''/chat/completions'' \<or> path req = ''/v1/chat/completions'')
              \<and> method req = ''POST'' then
        (case data req of
           Inl e \<Rightarrow>
             if e = JSONDecodeError
             then (Inr (json_response 400 (JDict [(''error'', JStr ''Invalid JSON'')])),
                   replay_state, w)
             else (Inl e, replay_state, w)
         | Inr request_data \<Rightarrow>
             (case request_data of
                JDict d \<Rightarrow>
                  let stream = dict_get d ''stream'' (JBool False) in
                  (case get_next_response replay_state of
                     Inl e \<Rightarrow> (Inl e, replay_state, w)
                   | Inr (event, replay_state') \<Rightarrow>
                       (case (case event of
                                None \<Rightarrow>
                                  (case create_default_response ''Task completed.'' w of
                                     (env, w') \<Rightarrow> (Inr env, w'))
                              | Some ev \<Rightarrow> convert_event ev w) of
                          (Inl e, w') \<Rightarrow> (Inl e, replay_state', w')
                        | (Inr env, w') \<Rightarrow>
                            if truthy stream
                            then (Inr (sse_response (stream_chunks env)), replay_state', w')
                            else (Inr (json_response 200 (completion env)), replay_state', w')))
              | _ \<Rightarrow> (Inl AttributeError, replay_state, w)))
      else
        (Inr (json_response 404 (JDict [(''error'', JStr ''Not found'')])), replay_state, w))"

text \<open>Paths into the wire objects, for stating what a response carries.\<close>

definition first_choice :: "json \<Rightarrow> json option" where
  "first_choice c = Option.bind (json_key ''choices'' c) (json_item 0)"

definition message_content :: "json \<Rightarrow> json option" where
  "message_content c =
     Option.bind (Option.bind (first_choice c) (json_key ''message'')) (json_key ''content'')"

definition chunk_delta :: "json \<Rightarrow> json option" where
  "chunk_delta c = Option.bind (first_choice c) (json_key ''delta'')"

definition chunk_finish_reason :: "json \<Rightarrow> json option" where
  "chunk_finish_reason c = Option.bind (first_choice c) (json_key ''finish_reason'')"

section \<open>Observations used to state the properties\<close>

text \<open>
  An envelope is id-consistent for \<open>cid\<close> when the unary completion and each of its three
  stream chunks carry the id \<open>cid\<close>.
\<close>

definition ids_consistent :: "envelope \<Rightarrow> string \<Rightarrow> bool" where
  "ids_consistent env cid \<longleftrightarrow>
     json_key ''id'' (completion env) = Some (JStr cid) \<and>
     map (json_key ''id'') (stream_chunks env) = [Some (JStr cid), Some (JStr cid), Some (JStr cid)]"

text \<open>
  An event \<open>convert_event\<close> handles neither as a tool call nor as a message: any event whose
  \<open>kind\<close> is neither \<open>ActionEvent\<close> nor \<open>MessageEvent\<close>, and also an \<open>ActionEvent\<close> without
  tool call and a \<open>MessageEvent\<close> without message.
\<close>

definition unhandled :: "TrajectoryEvent \<Rightarrow> bool" where
  "unhandled ev \<longleftrightarrow>
     \<not> (kind ev = ''ActionEvent'' \<and> dict_truthy (tool_call ev)) \<and>
     \<not> (kind ev = ''MessageEvent'' \<and> dict_truthy (llm_message ev))"

text \<open>
  Content blocks: a block is tagged as text when it is a dict whose \<open>type\<close> is the string
  \<open>text\<close>; its text is the string under \<open>text\<close>, the empty string when the key is absent.
  \<open>text_is_str\<close> says that the \<open>text\<close> of a block, where present, is a string.
\<close>

fun is_text_block :: "json \<Rightarrow> bool" where
  "is_text_block (JDict d) = (map_of d ''type'' = Some (JStr ''text''))"
| "is_text_block _ = False"

fun block_text :: "json \<Rightarrow> string" where
  "block_text (JDict d) = (case map_of d ''text'' of Some (JStr s) \<Rightarrow> s | _ \<Rightarrow> [])"
| "block_text _ = []"

fun text_is_str :: "json \<Rightarrow> bool" where
  "text_is_str (JDict d) =
     (case map_of d ''text'' of None \<Rightarrow> True | Some (JStr s) \<Rightarrow> True | Some _ \<Rightarrow> False)"
| "text_is_str _ = True"

text \<open>Concrete inputs for the examples.\<close>

definition example_world :: world where
  "example_world =
     \<lparr>uuid_hex = (\<lambda>k. if k = 0 then ''0123456789abcdef0123456789abcdef''
                         else ''fedcba9876543210fedcba9876543210''),
      uuid_calls = 0, clock = (\<lambda>k. 1700000000 + int k), clock_calls = 0\<rparr>"

definition example_message_event :: TrajectoryEvent where
  "example_message_event =
     \<lparr>kind = ''MessageEvent'', tool_call = None,
      llm_message = Some [(''role'', JStr ''assistant''), (''content'', JStr ''hello'')],
      tool_name = None\<rparr>"

definition empty_state :: "TrajectoryEvent TrajectoryReplayState" where
  "empty_state = TrajectoryReplayState_init []"

section \<open>Threads calling \<open>get_next_response\<close>\<close>

text \<open>
  Several threads, each calling \<open>get_next_response\<close> once on the same state.  A thread is
  at one of the statements of the method body:
  \<^item> \<open>Idle\<close>: before \<open>with self._lock\<close>; the step acquires the lock and is enabled only
    while no thread holds it;
  \<^item> \<open>AtTest\<close>: holding the lock, before \<open>if self.current_index >= len(self.responses)\<close>;
  \<^item> \<open>AtFetch\<close>: before \<open>response = self.responses[self.current_index]\<close>;
  \<^item> \<open>AtIncr r\<close>: \<open>response\<close> is \<open>r\<close>, before \<open>self.current_index += 1\<close>;
  \<^item> \<open>AtReturn r\<close>: before \<open>return\<close>, which leaves the \<open>with\<close> block and releases the lock;
  \<^item> \<open>AtRaise e\<close>: the subscript raised \<open>e\<close>; leaving the block releases the lock;
  \<^item> \<open>Done x\<close>: the call is over, having returned (\<open>Inr\<close>) or raised (\<open>Inl\<close>).
  The threads share the replay state and the lock, and a scheduler picks which thread
  executes its next statement.
\<close>

datatype 'e pc =
    Idle
  | AtTest
  | AtFetch
  | AtIncr 'e
  | AtReturn "'e option"
  | AtRaise py_error
  | Done "py_error + 'e option"

record 'e system =
  shared :: "'e TrajectoryReplayState"
  lock_held :: bool
  threads :: "'e pc list"

text \<open>
  One statement of thread \<open>i\<close>; \<open>None\<close> when the thread cannot move (it waits for the lock,
  its call is over, or there is no such thread).
\<close>

definition thread_step :: "nat \<Rightarrow> 'e system \<Rightarrow> 'e system option" where
  "thread_step i c =
     (if i \<ge> length (threads c) then None
      else case threads c ! i of
        Idle \<Rightarrow>
          if lock_held c then None
          else Some (c\<lparr>lock_held := True, threads := (threads c)[i := AtTest]\<rparr>)
      | AtTest \<Rightarrow>
          Some (c\<lparr>threads := (threads c)
                  [i := if current_index (shared c) \<ge> int (length (responses (shared c)))
                        then AtReturn None else AtFetch]\<rparr>)
      | AtFetch \<Rightarrow>
          Some (c\<lparr>threads := (threads c)
                  [i := case py_index (responses (shared c)) (current_index (shared c)) of
                          Inl e \<Rightarrow> AtRaise e
                        | Inr r \<Rightarrow> AtIncr r]\<rparr>)
      | AtIncr r \<Rightarrow>
          Some (c\<lparr>shared := (shared c)\<lparr>current_index := current_index (shared c) + 1\<rparr>,
                  threads := (threads c)[i := AtReturn (Some r)]\<rparr>)
      | AtReturn r \<Rightarrow>
          Some (c\<lparr>lock_held := False, threads := (threads c)[i := Done (Inr r)]\<rparr>)
      | AtRaise e \<Rightarrow>
          Some (c\<lparr>lock_held := False, threads := (threads c)[i := Done (Inl e)]\<rparr>)
      | Done x \<Rightarrow> None)"

text \<open>
  An interleaving is the list of the thread numbers in the order the scheduler picks them;
  \<open>run\<close> executes it, and is \<open>None\<close> when it picks a thread that cannot move.
\<close>

fun run :: "nat list \<Rightarrow> 'e system \<Rightarrow> 'e system option" where
  "run [] c = Some c"
| "run (i # sched) c = (case thread_step i c of None \<Rightarrow> None | Some c' \<Rightarrow> run sched c')"

text \<open>\<open>n\<close> threads about to call the method on a freshly constructed state.\<close>

definition start :: "'e list \<Rightarrow> nat \<Rightarrow> 'e system" where
  "start evs n =
     \<lparr>shared = TrajectoryReplayState_init evs, lock_held = False, threads = replicate n Idle\<rparr>"

fun outcome :: "'e pc \<Rightarrow> (py_error + 'e option) list" where
  "outcome (Done x) = [x]"
| "outcome _ = []"

fun is_done :: "'e pc \<Rightarrow> bool" where
  "is_done (Done x) = True"
| "is_done _ = False"

definition all_done :: "'e system \<Rightarrow> bool" where
  "all_done c = list_all is_done (threads c)"

text \<open>What the calls that are over returned, in thread order.\<close>

definition results :: "'e system \<Rightarrow> (py_error + 'e option) list" where
  "results c = concat (map outcome (threads c))"

text \<open>Bookkeeping for the proofs: whether a thread is inside the \<open>with\<close> block, the event a
  thread has drawn (it has incremented the cursor), and the statements it has left.\<close>

fun in_block :: "'e pc \<Rightarrow> bool" where
  "in_block Idle = False"
| "in_block (Done x) = False"
| "in_block _ = True"

fun drawn :: "'e pc \<Rightarrow> 'e multiset" where
  "drawn (AtReturn (Some r)) = {#r#}"
| "drawn (Done (Inr (Some r))) = {#r#}"
| "drawn _ = {#}"

fun steps_left :: "'e pc \<Rightarrow> nat" where
  "steps_left Idle = 5"
| "steps_left AtTest = 4"
| "steps_left AtFetch = 3"
| "steps_left (AtIncr r) = 2"
| "steps_left (AtReturn r) = 1"
| "steps_left (AtRaise e) = 1"
| "steps_left (Done x) = 0"

text \<open>
  What holds of a thread at each statement when the cursor is \<open>k\<close>: at the subscript and
  at the increment the cursor is below the end, at the increment the local \<open>response\<close> is
  the event under the cursor, and no call returns \<open>None\<close> or raises.
\<close>

fun pc_ok :: "'e list \<Rightarrow> int \<Rightarrow> 'e pc \<Rightarrow> bool" where
  "pc_ok evs k Idle = True"
| "pc_ok evs k AtTest = True"
| "pc_ok evs k AtFetch = (k < int (length evs))"
| "pc_ok evs k (AtIncr r) = (k < int (length evs) \<and> r = evs ! nat k)"
| "pc_ok evs k (AtReturn r) = (r \<noteq> None)"
| "pc_ok evs k (AtRaise e) = False"
| "pc_ok evs k (Done x) = (case x of Inl e \<Rightarrow> False | Inr r \<Rightarrow> r \<noteq> None)"

text \<open>
  The invariant of the interleaved executions started on the events \<open>evs\<close> with as many
  threads as events: the cursor is in range, the lock is held exactly when a thread is
  inside the block, at most one thread is inside, and the events drawn so far are the ones
  before the cursor.
\<close>

definition sys_inv :: "'e list \<Rightarrow> 'e system \<Rightarrow> bool" where
  "sys_inv evs c \<longleftrightarrow>
     responses (shared c) = evs \<and>
     length (threads c) = length evs \<and>
     0 \<le> current_index (shared c) \<and>
     current_index (shared c) \<le> int (length evs) \<and>
     (lock_held c \<longleftrightarrow> (\<exists>i < length (threads c). in_block (threads c ! i))) \<and>
     (\<forall>i < length (threads c). \<forall>j < length (threads c).
        in_block (threads c ! i) \<and> in_block (threads c ! j) \<longrightarrow> i = j) \<and>
     (\<Sum>t \<leftarrow> threads c. drawn t) = mset (take (nat (current_index (shared c))) evs) \<and>
     (\<forall>i < length (threads c). pc_ok evs (current_index (shared c)) (threads c ! i))"

section \<open>Sequential replay\<close>

lemma get_next_response_in_range:
  assumes "0 \<le> current_index s" and "current_index s < int (length (responses s))"
  shows "get_next_response s =
           Inr (Some (responses s ! nat (current_index s)), s\<lparr>current_index := current_index s + 1\<rparr>)"
  using assms by (simp add: get_next_response_def py_index_def)

lemma get_next_response_exhausted:
  assumes "int (length (responses s)) \<le> current_index s"
  shows "get_next_response s = Inr (None, s)"
  using assms by (simp add: get_next_response_def)

lemma draw_n_from:
  "k \<le> length evs \<Longrightarrow>
   draw_n n \<lparr>responses = evs, current_index = int k\<rparr> =
     Inr (map Some (take n (drop k evs)) @ replicate (n - (length evs - k)) None,
          \<lparr>responses = evs, current_index = int (min (k + n) (length evs))\<rparr>)"
proof (induction n arbitrary: k)
  case 0
  then show ?case by simp
next
  case (Suc n)
  show ?case
  proof (cases "k < length evs")
    case True
    then have g: "get_next_response \<lparr>responses = evs, current_index = int k\<rparr> =
        Inr (Some (evs ! k), \<lparr>responses = evs, current_index = int (Suc k)\<rparr>)"
      by (simp add: get_next_response_in_range)
    from True have d: "drop k evs = evs ! k # drop (Suc k) evs"
      by (simp add: Cons_nth_drop_Suc)
    from True have "Suc k \<le> length evs" by simp
    from Suc.IH [OF this] g d True show ?thesis
      by (simp add: Suc_diff_le)
  next
    case False
    with Suc.prems have k: "k = length evs" by simp
    then have g: "get_next_response \<lparr>responses = evs, current_index = int k\<rparr> =
        Inr (None, \<lparr>responses = evs, current_index = int k\<rparr>)"
      by (simp add: get_next_response_exhausted)
    from Suc.IH [OF Suc.prems] g k show ?thesis
      by (simp add: replicate_app_Cons_same)
  qed
qed

text \<open>
  C1.  On a state constructed with the events \<open>evs\<close> (\<open>M = length evs\<close>), \<open>n\<close> calls of
  \<open>get_next_response\<close> in sequence all return, and their results are the first
  \<open>min n M\<close> events in their original order, each once, followed by \<open>None\<close> for every call
  after the \<open>M\<close>-th; the cursor ends at \<open>min n M\<close>.  For \<open>n \<le> M\<close> that is exactly the
  first \<open>n\<close> events; the \<open>(M+1)\<close>-th and every later call returns \<open>None\<close>.
\<close>

theorem sequential_draws_in_order:
  "draw_n n (TrajectoryReplayState_init evs) =
     Inr (map Some (take n evs) @ replicate (n - length evs) None,
          \<lparr>responses = evs, current_index = int (min n (length evs))\<rparr>)"
  using draw_n_from [of 0 evs n] by (simp add: TrajectoryReplayState_init_def)

section \<open>The cursor invariant\<close>

lemma peek_next_response_in_range:
  assumes "0 \<le> current_index s" and "current_index s < int (length (responses s))"
  shows "peek_next_response s = Inr (Some (responses s ! nat (current_index s)), s)"
  using assms by (simp add: peek_next_response_def py_index_def)

lemma peek_next_response_state:
  "peek_next_response s = Inr (r, s') \<Longrightarrow> s' = s"
  by (auto simp: peek_next_response_def split: if_splits sum.splits)

text \<open>
  C7.  The state a construction returns satisfies \<open>0 \<le> current_index \<le> len(responses)\<close>.
  On a state that satisfies it, \<open>get_next_response\<close> returns: below the end it returns the
  event under the cursor and moves the cursor up by exactly one, keeping the invariant and
  the event list; at the end it returns \<open>None\<close> and the state is the one it was given.
  \<open>peek_next_response\<close> returns the state it was given, whatever that state is, and on a
  state in the invariant it does return.  \<open>reset\<close> sets the cursor to 0 from any state,
  keeps the event list, and its result satisfies the invariant.
\<close>

theorem cursor_invariant_preserved:
  "cursor_inv (TrajectoryReplayState_init evs)
   \<and> (cursor_inv s \<and> current_index s < int (length (responses s)) \<longrightarrow>
        get_next_response s =
          Inr (Some (responses s ! nat (current_index s)), s\<lparr>current_index := current_index s + 1\<rparr>)
        \<and> cursor_inv (s\<lparr>current_index := current_index s + 1\<rparr>))
   \<and> (cursor_inv s \<and> \<not> current_index s < int (length (responses s)) \<longrightarrow>
        get_next_response s = Inr (None, s))
   \<and> (peek_next_response s = Inr (r, s') \<longrightarrow> s' = s)
   \<and> (cursor_inv s \<longrightarrow> (\<exists>r. peek_next_response s = Inr (r, s)))
   \<and> current_index (reset t) = 0 \<and> responses (reset t) = responses t \<and> cursor_inv (reset t)"
proof -
  have init: "cursor_inv (TrajectoryReplayState_init evs)"
    by (simp add: cursor_inv_def TrajectoryReplayState_init_def)
  have step: "get_next_response s =
          Inr (Some (responses s ! nat (current_index s)), s\<lparr>current_index := current_index s + 1\<rparr>)
        \<and> cursor_inv (s\<lparr>current_index := current_index s + 1\<rparr>)"
    if "cursor_inv s" and "current_index s < int (length (responses s))"
    using that by (simp add: cursor_inv_def get_next_response_in_range)
  have stay: "get_next_response s = Inr (None, s)"
    if "\<not> current_index s < int (length (responses s))"
    using that by (simp add: get_next_response_exhausted)
  have peek: "\<exists>r. peek_next_response s = Inr (r, s)" if "cursor_inv s"
  proof (cases "current_index s < int (length (responses s))")
    case True
    with that show ?thesis
      by (simp add: cursor_inv_def peek_next_response_in_range)
  next
    case False
    then show ?thesis
      by (simp add: peek_next_response_def)
  qed
  have rst: "current_index (reset t) = 0 \<and> responses (reset t) = responses t \<and> cursor_inv (reset t)"
    by (simp add: reset_def cursor_inv_def)
  from init step stay peek rst peek_next_response_state [of s r s'] show ?thesis
    by blast
qed

theorem cursor_invariant_preserved_witness:
  "cursor_inv (TrajectoryReplayState_init [10, 20 :: nat])
   \<and> cursor_inv \<lparr>responses = [10, 20 :: nat], current_index = 1\<rparr>
   \<and> get_next_response \<lparr>responses = [10, 20 :: nat], current_index = 1\<rparr> =
        Inr (Some 20, \<lparr>responses = [10, 20], current_index = 2\<rparr>)
   \<and> cursor_inv \<lparr>responses = [10, 20 :: nat], current_index = 2\<rparr>
   \<and> get_next_response \<lparr>responses = [10, 20 :: nat], current_index = 2\<rparr> =
        Inr (None, \<lparr>responses = [10, 20], current_index = 2\<rparr>)
   \<and> peek_next_response \<lparr>responses = [10, 20 :: nat], current_index = 1\<rparr> =
        Inr (Some 20, \<lparr>responses = [10, 20], current_index = 1\<rparr>)
   \<and> current_index (reset \<lparr>responses = [10, 20 :: nat], current_index = 2\<rparr>) = 0"
proof -
  let ?s1 = "\<lparr>responses = [10, 20 :: nat], current_index = 1\<rparr>"
  let ?s2 = "\<lparr>responses = [10, 20 :: nat], current_index = 2\<rparr>"
  have i1: "cursor_inv ?s1" and i2: "cursor_inv ?s2"
    by (simp_all add: cursor_inv_def)
  have p: "peek_next_response ?s1 = Inr (Some 20, ?s1)"
    by (simp add: peek_next_response_def py_index_def)
  from cursor_invariant_preserved [of "[10, 20 :: nat]" ?s1 "Some 20" ?s1 ?s2]
       cursor_invariant_preserved [of "[10, 20 :: nat]" ?s2 "Some 20" ?s1 ?s2] i1 i2 p
  show ?thesis by simp
qed

section \<open>Peek then draw\<close>

text \<open>
  C8.  On any state, \<open>peek_next_response\<close> followed by \<open>get_next_response\<close>: when the peek
  returns \<open>r\<close> it returns the state unchanged, and the draw on that state returns the same
  \<open>r\<close>, with the cursor one higher when \<open>r\<close> is an event and where it was when \<open>r\<close> is \<open>None\<close>;
  when the peek raises, the draw on the same state raises the same exception.
\<close>

theorem peek_then_get_same:
  "(case peek_next_response s of
      Inl e \<Rightarrow> get_next_response s = Inl e
    | Inr (r, s1) \<Rightarrow>
        s1 = s \<and>
        get_next_response s1 =
          Inr (r, s\<lparr>current_index := current_index s + (if r = None then 0 else 1)\<rparr>))"
  by (simp add: peek_next_response_def get_next_response_def split: sum.splits)

section \<open>Completion ids\<close>

lemma build_completion_id:
  "json_key ''id'' (fst (build_completion cid m fr w)) = Some (JStr cid)"
  by (simp add: build_completion_def time_now_def)

lemma build_completion_content:
  "message_content (fst (build_completion cid (JDict [(''role'', r), (''content'', c)]) fr w)) = Some c"
  by (simp add: build_completion_def time_now_def message_content_def first_choice_def)

lemma build_completion_world:
  "uuid_calls (snd (build_completion cid m fr w)) = uuid_calls w"
  "uuid_hex (snd (build_completion cid m fr w)) = uuid_hex w"
  by (simp_all add: build_completion_def time_now_def)

lemma build_stream_chunk_id:
  "json_key ''id'' (fst (build_stream_chunk cid d fr w)) = Some (JStr cid)"
  by (simp add: build_stream_chunk_def time_now_def)

lemma build_stream_chunk_delta:
  "chunk_delta (fst (build_stream_chunk cid d fr w)) = Some d"
  by (simp add: build_stream_chunk_def time_now_def chunk_delta_def first_choice_def)

lemma build_stream_chunk_finish_reason:
  "chunk_finish_reason (fst (build_stream_chunk cid d fr w)) =
     Some (case fr of None \<Rightarrow> JNull | Some r \<Rightarrow> JStr r)"
  by (simp add: build_stream_chunk_def time_now_def chunk_finish_reason_def first_choice_def)

lemma build_stream_chunk_world:
  "uuid_calls (snd (build_stream_chunk cid d fr w)) = uuid_calls w"
  "uuid_hex (snd (build_stream_chunk cid d fr w)) = uuid_hex w"
  by (simp_all add: build_stream_chunk_def time_now_def)

lemma build_message_chunks_ids:
  "map (json_key ''id'') (fst (build_message_chunks cid content fr w)) =
     [Some (JStr cid), Some (JStr cid), Some (JStr cid)]"
  by (simp add: build_message_chunks_def split_beta build_stream_chunk_id)

lemma build_message_chunks_world:
  "uuid_calls (snd (build_message_chunks cid content fr w)) = uuid_calls w"
  "uuid_hex (snd (build_message_chunks cid content fr w)) = uuid_hex w"
  by (simp_all add: build_message_chunks_def split_beta build_stream_chunk_world)

lemma build_tool_call_chunks_ids:
  "map (json_key ''id'') (fst (build_tool_call_chunks cid t n a w)) =
     [Some (JStr cid), Some (JStr cid), Some (JStr cid)]"
  by (simp add: build_tool_call_chunks_def split_beta build_stream_chunk_id)

lemma build_tool_call_chunks_world:
  "uuid_calls (snd (build_tool_call_chunks cid t n a w)) = uuid_calls w"
  "uuid_hex (snd (build_tool_call_chunks cid t n a w)) = uuid_hex w"
  by (simp_all add: build_tool_call_chunks_def split_beta build_stream_chunk_world)

lemma create_default_response_ids:
  "ids_consistent (fst (create_default_response content w))
     (''chatcmpl-'' @ take 24 (uuid_hex w (uuid_calls w)))"
  "uuid_calls (snd (create_default_response content w)) = Suc (uuid_calls w)"
  by (simp_all add: create_default_response_def ids_consistent_def uuid4_hex_def split_beta
        Let_def build_completion_id build_message_chunks_ids build_completion_world
        build_message_chunks_world)

lemma create_default_response_content:
  "message_content (completion (fst (create_default_response content w))) = Some (JStr content)"
  by (simp add: create_default_response_def split_beta Let_def build_completion_content)

lemma create_tool_call_response_ids:
  assumes "dict_truthy (tool_call ev)"
  shows "ids_consistent (fst (create_tool_call_response ev w))
           (''chatcmpl-'' @ take 24 (uuid_hex w (Suc (uuid_calls w))))"
    and "uuid_calls (snd (create_tool_call_response ev w)) = Suc (Suc (uuid_calls w))"
  using assms
  by (auto simp add: create_tool_call_response_def ids_consistent_def uuid4_hex_def split_beta
        Let_def build_completion_id build_tool_call_chunks_ids build_completion_world
        build_tool_call_chunks_world split: option.splits)

lemma create_message_response_ids:
  assumes "create_message_response ev w = (Inr env, w')"
  shows "ids_consistent env (''chatcmpl-'' @ take 24 (uuid_hex w (uuid_calls w)))
         \<and> uuid_calls w' = Suc (uuid_calls w)"
proof (cases "dict_truthy (llm_message ev)")
  case False
  with assms have "env = fst (create_default_response ''Task completed.'' w)"
    "w' = snd (create_default_response ''Task completed.'' w)"
    by (auto simp: create_message_response_def split_beta split: option.splits if_splits)
  with create_default_response_ids [of "''Task completed.''" w] show ?thesis by simp
next
  case True
  with assms show ?thesis
    by (auto simp add: create_message_response_def ids_consistent_def uuid4_hex_def split_beta
        Let_def build_completion_id build_message_chunks_ids build_completion_world
        build_message_chunks_world split: option.splits sum.splits if_splits)
qed

text \<open>
  C10.  Every envelope \<open>convert_event\<close> returns, and every envelope
  \<open>create_default_response\<close> returns, is id-consistent: the \<open>id\<close> of the unary completion
  and the \<open>id\<close> of each of the three stream chunks are one and the same string, namely
  \<open>chatcmpl-\<close> followed by the first 24 characters of a uuid drawn during that conversion
  (the \<open>k\<close>-th, for a \<open>k\<close> between the uuid count before the call and the count after it).
\<close>

theorem envelope_ids_consistent:
  "(convert_event ev w = (Inr env, w') \<longrightarrow>
      (\<exists>k. uuid_calls w \<le> k \<and> k < uuid_calls w' \<and>
           ids_consistent env (''chatcmpl-'' @ take 24 (uuid_hex w k))))
   \<and> (create_default_response content w = (env, w') \<longrightarrow>
      (\<exists>k. uuid_calls w \<le> k \<and> k < uuid_calls w' \<and>
           ids_consistent env (''chatcmpl-'' @ take 24 (uuid_hex w k))))"
proof (intro conjI impI)
  assume c: "convert_event ev w = (Inr env, w')"
  consider (tool) "kind ev = ''ActionEvent'' \<and> dict_truthy (tool_call ev)"
    | (msg) "\<not> (kind ev = ''ActionEvent'' \<and> dict_truthy (tool_call ev))"
            "kind ev = ''MessageEvent'' \<and> dict_truthy (llm_message ev)"
    | (dflt) "\<not> (kind ev = ''ActionEvent'' \<and> dict_truthy (tool_call ev))"
             "\<not> (kind ev = ''MessageEvent'' \<and> dict_truthy (llm_message ev))"
    by blast
  then show "\<exists>k. uuid_calls w \<le> k \<and> k < uuid_calls w' \<and>
           ids_consistent env (''chatcmpl-'' @ take 24 (uuid_hex w k))"
  proof cases
    case tool
    with c have e: "env = fst (create_tool_call_response ev w)"
      and w: "w' = snd (create_tool_call_response ev w)"
      by (simp_all add: convert_event_def split_beta)
    from tool have "dict_truthy (tool_call ev)" by simp
    from create_tool_call_response_ids [OF this, of w] e w show ?thesis
      by (intro exI [of _ "Suc (uuid_calls w)"]) simp
  next
    case msg
    with c have "create_message_response ev w = (Inr env, w')"
      by (simp add: convert_event_def)
    from create_message_response_ids [OF this] show ?thesis
      by (intro exI [of _ "uuid_calls w"]) simp
  next
    case dflt
    with c have e: "env = fst (create_default_response ''Task completed.'' w)"
      and w: "w' = snd (create_default_response ''Task completed.'' w)"
      by (simp_all add: convert_event_def split_beta)
    from create_default_response_ids [of "''Task completed.''" w] e w show ?thesis
      by (intro exI [of _ "uuid_calls w"]) simp
  qed
next
  assume "create_default_response content w = (env, w')"
  then have e: "env = fst (create_default_response content w)"
    and w: "w' = snd (create_default_response content w)"
    by simp_all
  from create_default_response_ids [of content w] e w
  show "\<exists>k. uuid_calls w \<le> k \<and> k < uuid_calls w' \<and>
           ids_consistent env (''chatcmpl-'' @ take 24 (uuid_hex w k))"
    by (intro exI [of _ "uuid_calls w"]) simp
qed


theorem envelope_ids_consistent_witness:
  "(case convert_event example_message_event example_world of
      (Inr env, w') \<Rightarrow> ids_consistent env ''chatcmpl-0123456789abcdef01234567''
    | (Inl e, w') \<Rightarrow> False)"
proof -
  obtain r w' where c: "convert_event example_message_event example_world = (r, w')"
    by (cases "convert_event example_message_event example_world")
  from c have "\<exists>env. r = Inr env"
    by (auto simp add: convert_event_def create_message_response_def example_message_event_def
        extract_content_def dict_get_def split_beta Let_def)
  then obtain env where r: "r = Inr env" ..
  from c have n: "uuid_calls w' = 1"
    by (auto simp add: convert_event_def create_message_response_def example_message_event_def
        extract_content_def dict_get_def split_beta Let_def uuid4_hex_def example_world_def
        build_completion_world build_message_chunks_world)
  from envelope_ids_consistent [of example_message_event example_world env w'] c r
  obtain k where k: "uuid_calls example_world \<le> k" "k < uuid_calls w'"
    "ids_consistent env (''chatcmpl-'' @ take 24 (uuid_hex example_world k))"
    by blast
  from k n have "k = 0" by simp
  with k have "ids_consistent env ''chatcmpl-0123456789abcdef01234567''"
    by (simp add: example_world_def)
  with c r show ?thesis by simp
qed


section \<open>Tool-call chunks\<close>

text \<open>
  C4.  \<open>build_tool_call_chunks\<close> returns exactly three chunks.  The delta of the first is
  the assistant role, a null content and one tool call with index 0, the tool-call id, type
  \<open>function\<close>, the tool name and the empty arguments string.  The delta of the second is one
  tool call with index 0 that carries the whole arguments value and has no \<open>id\<close> and no
  \<open>type\<close>.  The delta of the third is the empty object (so it has no \<open>tool_calls\<close>), and
  its \<open>finish_reason\<close> is \<open>tool_calls\<close>; the first two have a null \<open>finish_reason\<close>.
\<close>

theorem build_tool_call_chunks_three_phases:
  "\<exists>c1 c2 c3 w'.
     build_tool_call_chunks completion_id tool_call_id name arguments w = ([c1, c2, c3], w')
     \<and> chunk_delta c1 =
         Some (JDict [(''role'', JStr ''assistant''),
                      (''content'', JNull),
                      (''tool_calls'',
                         JList [JDict [(''index'', JInt 0),
                                       (''id'', tool_call_id),
                                       (''type'', JStr ''function''),
                                       (''function'',
                                          JDict [(''name'', name), (''arguments'', JStr [])])]])])
     \<and> chunk_delta c2 =
         Some (JDict [(''tool_calls'',
                         JList [JDict [(''index'', JInt 0),
                                       (''function'', JDict [(''arguments'', arguments)])]])])
     \<and> chunk_delta c3 = Some (JDict [])
     \<and> Option.bind (chunk_delta c3) (json_key ''tool_calls'') = None
     \<and> chunk_finish_reason c1 = Some JNull
     \<and> chunk_finish_reason c2 = Some JNull
     \<and> chunk_finish_reason c3 = Some (JStr ''tool_calls'')"
  by (simp add: build_tool_call_chunks_def split_beta build_stream_chunk_delta
        build_stream_chunk_finish_reason)

section \<open>Requests that draw no event\<close>

lemma handler_json_decode_error:
  assumes "path req = ''/chat/completions'' \<or> path req = ''/v1/chat/completions''"
    and "method req = ''POST''" and "data req = Inl JSONDecodeError"
  shows "handler st w req =
           (Inr (json_response 400 (JDict [(''error'', JStr ''Invalid JSON'')])), st, w)"
  using assms by (auto simp add: handler_def)

lemma handler_loads_raises:
  assumes "path req = ''/chat/completions'' \<or> path req = ''/v1/chat/completions''"
    and "method req = ''POST''" and "data req = Inl e"
  shows "snd (handler st w req) = (st, w)"
  using assms by (auto simp add: handler_def)

lemma handler_not_found:
  assumes "\<not> ((path req = ''/health'' \<or> path req = ''/'') \<and> method req = ''GET'')"
    and "\<not> (path req = ''/reset'' \<and> method req = ''GET'')"
    and "\<not> ((path req = ''/chat/completions'' \<or> path req = ''/v1/chat/completions'')
            \<and> method req = ''POST'')"
  shows "handler st w req =
           (Inr (json_response 404 (JDict [(''error'', JStr ''Not found'')])), st, w)"
  unfolding handler_def by (simp only: assms if_False)

text \<open>
  What the handler does get right around the body and the routes.  A \<open>POST\<close> to
  \<open>/chat/completions\<close> or \<open>/v1/chat/completions\<close> on whose body \<open>json.loads\<close> raises
  \<open>JSONDecodeError\<close> is answered with status 400 and the body \<open>{"error": "Invalid JSON"}\<close>,
  and the replay state (hence the cursor) is the one before the request.  Whatever
  \<open>json.loads\<close> raises on such a request, the replay state is unchanged: no event is
  drawn before the body has parsed.  A request that matches none of the three routes is
  answered with status 404 and the body \<open>{"error": "Not found"}\<close>, the state unchanged.
\<close>

lemma malformed_or_unrouted_request:
  "((path req = ''/chat/completions'' \<or> path req = ''/v1/chat/completions'')
      \<and> method req = ''POST'' \<and> data req = Inl JSONDecodeError \<longrightarrow>
      handler st w req =
        (Inr \<lparr>status = 400, content_type = ''application/json'', headers = [],
              body = [Dumps (JDict [(''error'', JStr ''Invalid JSON'')])]\<rparr>, st, w))
   \<and> ((path req = ''/chat/completions'' \<or> path req = ''/v1/chat/completions'')
      \<and> method req = ''POST'' \<and> data req = Inl e \<longrightarrow>
      snd (handler st w req) = (st, w))
   \<and> (\<not> ((path req = ''/health'' \<or> path req = ''/'') \<and> method req = ''GET'')
      \<and> \<not> (path req = ''/reset'' \<and> method req = ''GET'')
      \<and> \<not> ((path req = ''/chat/completions'' \<or> path req = ''/v1/chat/completions'')
            \<and> method req = ''POST'') \<longrightarrow>
      handler st w req =
        (Inr \<lparr>status = 404, content_type = ''application/json'', headers = [],
              body = [Dumps (JDict [(''error'', JStr ''Not found'')])]\<rparr>, st, w))"
  using handler_json_decode_error [of req st w] handler_loads_raises [of req e st w]
    handler_not_found [of req st w]
  by (simp add: json_response_def)

lemma malformed_or_unrouted_request_example:
  "handler (TrajectoryReplayState_init [example_message_event]) example_world
     \<lparr>path = ''/v1/chat/completions'', method = ''POST'', data = Inl JSONDecodeError\<rparr> =
     (Inr \<lparr>status = 400, content_type = ''application/json'', headers = [],
           body = [Dumps (JDict [(''error'', JStr ''Invalid JSON'')])]\<rparr>,
      TrajectoryReplayState_init [example_message_event], example_world)
   \<and> snd (handler (TrajectoryReplayState_init [example_message_event]) example_world
           \<lparr>path = ''/v1/chat/completions'', method = ''POST'', data = Inl UnicodeDecodeError\<rparr>) =
       (TrajectoryReplayState_init [example_message_event], example_world)
   \<and> handler (TrajectoryReplayState_init [example_message_event]) example_world
       \<lparr>path = ''/chat/completions'', method = ''GET'', data = Inr (JDict [])\<rparr> =
       (Inr \<lparr>status = 404, content_type = ''application/json'', headers = [],
             body = [Dumps (JDict [(''error'', JStr ''Not found'')])]\<rparr>,
        TrajectoryReplayState_init [example_message_event], example_world)"
  using malformed_or_unrouted_request
          [where req = "\<lparr>path = ''/v1/chat/completions'', method = ''POST'', data = Inl JSONDecodeError\<rparr>"
             and e = JSONDecodeError and st = "TrajectoryReplayState_init [example_message_event]"
             and w = example_world]
        malformed_or_unrouted_request
          [where req = "\<lparr>path = ''/v1/chat/completions'', method = ''POST'', data = Inl UnicodeDecodeError\<rparr>"
             and e = UnicodeDecodeError and st = "TrajectoryReplayState_init [example_message_event]"
             and w = example_world]
        malformed_or_unrouted_request
          [where req = "\<lparr>path = ''/chat/completions'', method = ''GET'', data = Inr (JDict [])\<rparr>"
             and e = JSONDecodeError and st = "TrajectoryReplayState_init [example_message_event]"
             and w = example_world]
  by simp


text \<open>
  C3.  The handler evaluated on a \<open>POST\<close> to \<open>/chat/completions\<close> whose body is
  malformed JSON because it is not valid UTF-8 (the single byte \<open>0xFF\<close>): \<open>json.loads\<close>
  raises \<open>UnicodeDecodeError\<close>, which is not a \<open>JSONDecodeError\<close>, so the \<open>except\<close> clause
  does not catch it and the exception leaves the handler; the response with status 400 and
  \<open>{"error": "Invalid JSON"}\<close> is not returned.  The replay state is the one before the
  request.
\<close>

theorem handler_raises_on_undecodable_body:
  "handler st w \<lparr>path = ''/chat/completions'', method = ''POST'', data = Inl UnicodeDecodeError\<rparr> =
     (Inl UnicodeDecodeError, st, w)"
  by (simp add: handler_def)

text \<open>
  C2.  The handler evaluated on a \<open>POST\<close> to \<open>/chat/completions\<close> whose body is the valid
  JSON text \<open>[]\<close>: \<open>json.loads\<close> returns a list, \<open>request_data.get\<close> raises
  \<open>AttributeError\<close>, and the exception leaves the handler; no response is returned.
\<close>

theorem handler_raises_on_json_array_body:
  "handler st w \<lparr>path = ''/chat/completions'', method = ''POST'', data = Inr (JList [])\<rparr> =
     (Inl AttributeError, st, w)"
  by (simp add: handler_def)

lemma handler_raises_on_non_object_body:
  assumes "path req = ''/chat/completions'' \<or> path req = ''/v1/chat/completions''"
    and "method req = ''POST''" and "data req = Inr v" and "\<forall>d. v \<noteq> JDict d"
  shows "handler st w req = (Inl AttributeError, st, w)"
  using assms by (cases v) (auto simp add: handler_def)


section \<open>The default response\<close>

lemma convert_event_unhandled:
  "unhandled ev \<Longrightarrow>
   convert_event ev w =
     (Inr (fst (create_default_response ''Task completed.'' w)),
      snd (create_default_response ''Task completed.'' w))"
  by (auto simp add: convert_event_def unhandled_def split_beta)

lemma handler_chat_object:
  assumes "path req = ''/chat/completions'' \<or> path req = ''/v1/chat/completions''"
    and "method req = ''POST''" and "data req = Inr (JDict d)"
    and "get_next_response st = Inr (event, st')"
    and "(case event of
            None \<Rightarrow> (Inr (fst (create_default_response ''Task completed.'' w)),
                      snd (create_default_response ''Task completed.'' w))
          | Some ev \<Rightarrow> convert_event ev w) = (Inr env, w')"
  shows "handler st w req =
           (Inr (if truthy (dict_get d ''stream'' (JBool False))
                 then sse_response (stream_chunks env)
                 else json_response 200 (completion env)), st', w')"
  using assms by (auto simp add: handler_def Let_def split_beta split: option.splits)

text \<open>
  C5.  On a \<open>POST\<close> to a chat-completions path whose body is a JSON object, when
  \<open>get_next_response\<close> returns \<open>None\<close> (the trajectory is exhausted) or returns an event
  that \<open>convert_event\<close> does not handle, the handler returns a response with status 200 built
  from the default envelope: the serialised completion of
  \<open>create_default_response("Task completed.")\<close>, or its stream chunks as SSE frames when
  \<open>stream\<close> is true; the content of the first choice's message of that completion is
  \<open>Task completed.\<close>
\<close>

theorem exhausted_or_unhandled_default_response:
  assumes "path req = ''/chat/completions'' \<or> path req = ''/v1/chat/completions''"
    and "method req = ''POST''"
    and "data req = Inr (JDict d)"
    and "get_next_response st = Inr (event, st')"
    and "event = None \<or> (\<exists>ev. event = Some ev \<and> unhandled ev)"
  shows "\<exists>resp.
           handler st w req = (Inr resp, st', snd (create_default_response ''Task completed.'' w))
           \<and> status resp = 200
           \<and> body resp =
               (if truthy (dict_get d ''stream'' (JBool False))
                then format_sse_response
                       (stream_chunks (fst (create_default_response ''Task completed.'' w)))
                else [Dumps (completion (fst (create_default_response ''Task completed.'' w)))])
           \<and> message_content (completion (fst (create_default_response ''Task completed.'' w))) =
               Some (JStr ''Task completed.'')"
proof -
  let ?D = "create_default_response ''Task completed.'' w"
  from assms(5) have "(case event of None \<Rightarrow> (Inr (fst ?D), snd ?D)
      | Some ev \<Rightarrow> convert_event ev w) = (Inr (fst ?D), snd ?D)"
    by (auto simp add: convert_event_unhandled)
  from handler_chat_object [OF assms(1-4) this] show ?thesis
    by (simp add: create_default_response_content sse_response_def json_response_def)
qed

theorem exhausted_or_unhandled_default_response_witness:
  "get_next_response empty_state = Inr (None, empty_state)
   \<and> (\<exists>resp. handler empty_state example_world
               \<lparr>path = ''/chat/completions'', method = ''POST'',
                data = Inr (JDict [(''model'', JStr ''mock-llm'')])\<rparr> =
               (Inr resp, empty_state,
                snd (create_default_response ''Task completed.'' example_world))
        \<and> status resp = 200
        \<and> body resp =
            [Dumps (completion (fst (create_default_response ''Task completed.'' example_world)))])
   \<and> message_content (completion (fst (create_default_response ''Task completed.'' example_world))) =
        Some (JStr ''Task completed.'')"
proof -
  let ?req = "\<lparr>path = ''/chat/completions'', method = ''POST'',
                data = Inr (JDict [(''model'', JStr ''mock-llm'')])\<rparr>"
  have g: "get_next_response empty_state = Inr (None, empty_state)"
    by (simp add: get_next_response_def TrajectoryReplayState_init_def empty_state_def)
  have "path ?req = ''/chat/completions'' \<or> path ?req = ''/v1/chat/completions''"
    and "method ?req = ''POST''"
    and "data ?req = Inr (JDict [(''model'', JStr ''mock-llm'')])"
    and "(None :: TrajectoryEvent option) = None \<or> (\<exists>ev. None = Some ev \<and> unhandled ev)"
    by simp_all
  from exhausted_or_unhandled_default_response [OF this(1-3) g this(4), of example_world]
  have "\<exists>resp. handler empty_state example_world ?req =
               (Inr resp, empty_state,
                snd (create_default_response ''Task completed.'' example_world))
        \<and> status resp = 200
        \<and> body resp =
            [Dumps (completion (fst (create_default_response ''Task completed.'' example_world)))]
        \<and> message_content (completion (fst (create_default_response ''Task completed.'' example_world))) =
            Some (JStr ''Task completed.'')"
    by (simp add: dict_get_def)
  with g show ?thesis
    by blast
qed

section \<open>Extracting the text of a message\<close>

lemma str_join_text_parts:
  "\<forall>b \<in> set items. is_text_block b \<longrightarrow> text_is_str b \<Longrightarrow>
   str_join (text_parts items) = Inr (concat (map block_text (filter is_text_block items)))"
proof (induction items rule: text_parts.induct)
  case 1
  then show ?case by simp
next
  case (2 d items)
  then show ?case
    by (auto simp add: dict_get_def split: option.splits json.splits)
qed simp_all

text \<open>
  C6, as amended.  For an \<open>llm_message\<close> whose \<open>content\<close> is a string,
  \<open>_extract_content\<close> returns that string unchanged.  For one whose \<open>content\<close> is a list
  in which the \<open>text\<close> of every block tagged as text is a string (or absent, which counts
  as the empty string), it returns the concatenation, in list order, of the texts of exactly
  the blocks tagged as text; every other item of the list contributes nothing.
\<close>

theorem extract_content_text:
  "(map_of llm_msg ''content'' = Some (JStr s) \<longrightarrow> extract_content llm_msg = Inr s)
   \<and> (map_of llm_msg ''content'' = Some (JList items)
      \<and> (\<forall>b \<in> set items. is_text_block b \<longrightarrow> text_is_str b) \<longrightarrow>
      extract_content llm_msg = Inr (concat (map block_text (filter is_text_block items))))"
  by (simp add: extract_content_def dict_get_def str_join_text_parts)

text \<open>
  C6 as first stated, for every list, fails: on a content list whose only block is tagged as
  text and carries the \<open>text\<close> \<open>null\<close>, the join raises \<open>TypeError\<close> and no text is
  extracted, where the statement promises the concatenation of the texts of the text blocks.
\<close>

theorem extract_content_text_counterexample:
  "is_text_block (JDict [(''type'', JStr ''text''), (''text'', JNull)])
   \<and> extract_content [(''content'', JList [JDict [(''type'', JStr ''text''), (''text'', JNull)]])] =
       Inl TypeError
   \<and> extract_content [(''content'', JList [JDict [(''type'', JStr ''text''), (''text'', JNull)]])] \<noteq>
       Inr (concat (map block_text
              (filter is_text_block [JDict [(''type'', JStr ''text''), (''text'', JNull)]])))"
  by (simp add: extract_content_def dict_get_def)

theorem extract_content_text_witness:
  "extract_content [(''role'', JStr ''assistant''), (''content'', JStr ''hello'')] = Inr ''hello''
   \<and> extract_content
        [(''role'', JStr ''assistant''),
         (''content'',
            JList [JDict [(''type'', JStr ''text''), (''text'', JStr ''he'')],
                   JDict [(''type'', JStr ''image_url''), (''text'', JStr ''skipped'')],
                   JStr ''raw'',
                   JDict [(''type'', JStr ''text'')],
                   JDict [(''type'', JStr ''text''), (''text'', JStr ''llo'')]])] = Inr ''hello''"
  using extract_content_text
          [where llm_msg = "[(''role'', JStr ''assistant''), (''content'', JStr ''hello'')]"
             and s = "''hello''" and items = "[]"]
        extract_content_text
          [where llm_msg = "[(''role'', JStr ''assistant''),
               (''content'',
                  JList [JDict [(''type'', JStr ''text''), (''text'', JStr ''he'')],
                         JDict [(''type'', JStr ''image_url''), (''text'', JStr ''skipped'')],
                         JStr ''raw'',
                         JDict [(''type'', JStr ''text'')],
                         JDict [(''type'', JStr ''text''), (''text'', JStr ''llo'')]])]"
             and s = "''hello''"
             and items = "[JDict [(''type'', JStr ''text''), (''text'', JStr ''he'')],
                         JDict [(''type'', JStr ''image_url''), (''text'', JStr ''skipped'')],
                         JStr ''raw'',
                         JDict [(''type'', JStr ''text'')],
                         JDict [(''type'', JStr ''text''), (''text'', JStr ''llo'')]]"]
  by simp

section \<open>Concurrent draws\<close>

text \<open>
  A thread that runs alone from \<open>Idle\<close> with the lock free ends with what
  \<open>get_next_response\<close> computes on the shared state: the statement-level model and the
  sequential function are the same code.
\<close>

lemma solo_thread_is_get_next_response:
  assumes i: "i < length (threads c)" and idle: "threads c ! i = Idle" and free: "\<not> lock_held c"
  shows "\<exists>n. run (replicate n i) c =
           Some (case get_next_response (shared c) of
                   Inl e \<Rightarrow> c\<lparr>threads := (threads c)[i := Done (Inl e)]\<rparr>
                 | Inr (r, s') \<Rightarrow> c\<lparr>shared := s', threads := (threads c)[i := Done (Inr r)]\<rparr>)"
proof (cases c)
  case (fields s l ts)
  with free have l: "l = False" by simp
  from fields i idle have its: "i < length ts" "ts ! i = Idle" by simp_all
  show ?thesis
  proof (cases "current_index s \<ge> int (length (responses s))")
    case True
    with its show ?thesis
      by (intro exI [of _ 3])
         (simp add: fields l eval_nat_numeral thread_step_def get_next_response_def)
  next
    case False
    show ?thesis
    proof (cases "py_index (responses s) (current_index s)")
      case (Inl e)
      with False its show ?thesis
        by (intro exI [of _ 4])
           (simp add: fields l eval_nat_numeral thread_step_def get_next_response_def)
    next
      case (Inr r)
      with False its show ?thesis
        by (intro exI [of _ 5])
           (simp add: fields l eval_nat_numeral thread_step_def get_next_response_def)
    qed
  qed
qed

lemma sum_list_map_update:
  fixes f :: "'a \<Rightarrow> 'b::comm_monoid_add"
  shows "i < length ts \<Longrightarrow>
    sum_list (map f (ts[i := t])) + f (ts ! i) = sum_list (map f ts) + f t"
proof (induction ts arbitrary: i)
  case Nil
  then show ?case by simp
next
  case (Cons a ts)
  show ?case
  proof (cases i)
    case 0
    then show ?thesis by (simp add: ac_simps)
  next
    case (Suc k)
    with Cons.prems have "k < length ts" by simp
    from Cons.IH [OF this] Suc show ?thesis
      by (simp add: ac_simps)
  qed
qed

lemma size_drawn_le: "size (\<Sum>t \<leftarrow> ts. drawn t) \<le> length ts"
proof (induction ts)
  case Nil
  then show ?case by simp
next
  case (Cons a ts)
  have "size (drawn a) \<le> 1"
    by (cases a rule: drawn.cases) simp_all
  with Cons show ?case by simp
qed

lemma size_drawn_less:
  "i < length ts \<Longrightarrow> drawn (ts ! i) = {#} \<Longrightarrow> size (\<Sum>t \<leftarrow> ts. drawn t) < length ts"
proof (induction ts arbitrary: i)
  case Nil
  then show ?case by simp
next
  case (Cons a ts)
  show ?case
  proof (cases i)
    case 0
    with Cons.prems size_drawn_le [of ts] show ?thesis by simp
  next
    case (Suc k)
    have "size (drawn a) \<le> 1"
      by (cases a rule: drawn.cases) simp_all
    moreover from Suc Cons.prems have "size (\<Sum>t \<leftarrow> ts. drawn t) < length ts"
      by (intro Cons.IH [of k]) simp_all
    ultimately show ?thesis by simp
  qed
qed

lemma sum_list_replicate_empty: "sum_list (replicate n ({#} :: 'a multiset)) = {#}"
  by (induction n) simp_all

lemma start_inv: "sys_inv evs (start evs (length evs))"
  by (simp add: sys_inv_def start_def TrajectoryReplayState_init_def sum_list_replicate_empty)


lemma pc_ok_outside_block: "\<not> in_block t \<Longrightarrow> pc_ok evs k t = pc_ok evs k' t"
  by (cases t) simp_all

lemma sys_inv_update:
  assumes inv: "sys_inv evs c" and i: "i < length (threads c)"
    and alone: "in_block (threads c ! i) \<or> \<not> lock_held c"
    and ts': "threads c' = (threads c)[i := new]"
    and resp': "responses (shared c') = evs"
    and k': "0 \<le> current_index (shared c')" "current_index (shared c') \<le> int (length evs)"
    and l': "lock_held c' = in_block new"
    and dr': "(\<Sum>t \<leftarrow> threads c. drawn t) + drawn new =
                mset (take (nat (current_index (shared c'))) evs) + drawn (threads c ! i)"
    and ok': "pc_ok evs (current_index (shared c')) new"
  shows "sys_inv evs c'"
proof -
  let ?ts = "threads c"
  note inv' = inv [unfolded sys_inv_def]
  from inv' have len: "length ?ts = length evs" by (elim conjE)
  from inv' have lock: "lock_held c \<longleftrightarrow> (\<exists>j < length ?ts. in_block (?ts ! j))"
    by (elim conjE)
  from inv' have "\<forall>a < length ?ts. \<forall>b < length ?ts.
      in_block (?ts ! a) \<and> in_block (?ts ! b) \<longrightarrow> a = b"
    by (elim conjE)
  then have uniq: "a = b" if "a < length ?ts" "b < length ?ts"
      "in_block (?ts ! a)" "in_block (?ts ! b)" for a b
    using that by blast
  from inv' have "\<forall>j < length ?ts. pc_ok evs (current_index (shared c)) (?ts ! j)"
    by (elim conjE)
  then have ok: "pc_ok evs (current_index (shared c)) (?ts ! j)" if "j < length ?ts" for j
    using that by blast
  have others: "\<not> in_block (?ts ! j)" if "j < length ?ts" and "j \<noteq> i" for j
  proof (cases "in_block (?ts ! i)")
    case True
    with that uniq [of i j] i show ?thesis by blast
  next
    case False
    with alone have "\<not> lock_held c" by simp
    with lock that show ?thesis by blast
  qed
  have nth': "threads c' ! j = (if j = i then new else ?ts ! j)" if "j < length ?ts" for j
    using that by (simp add: ts' nth_list_update)
  have a: "lock_held c' \<longleftrightarrow> (\<exists>j < length (threads c'). in_block (threads c' ! j))"
  proof
    assume "lock_held c'"
    with l' i show "\<exists>j < length (threads c'). in_block (threads c' ! j)"
      by (intro exI [of _ i]) (simp add: ts')
  next
    assume "\<exists>j < length (threads c'). in_block (threads c' ! j)"
    then obtain j where j: "j < length ?ts" "in_block (threads c' ! j)"
      by (auto simp: ts')
    with others [of j] nth' [of j] have "j = i" by (cases "j = i") simp_all
    with j nth' [of j] l' show "lock_held c'" by simp
  qed
  have b: "a = b" if "a < length (threads c')" "b < length (threads c')"
      "in_block (threads c' ! a)" "in_block (threads c' ! b)" for a b
  proof -
    from that have la: "a < length ?ts" and lb: "b < length ?ts" by (simp_all add: ts')
    have "a = i"
    proof (rule ccontr)
      assume "a \<noteq> i"
      with la others [of a] nth' [of a] that(3) show False by simp
    qed
    moreover have "b = i"
    proof (rule ccontr)
      assume "b \<noteq> i"
      with lb others [of b] nth' [of b] that(4) show False by simp
    qed
    ultimately show ?thesis by simp
  qed
  from sum_list_map_update [OF i, of drawn new] dr'
  have d: "(\<Sum>t \<leftarrow> threads c'. drawn t) = mset (take (nat (current_index (shared c'))) evs)"
    by (simp add: ts')
  have e: "pc_ok evs (current_index (shared c')) (threads c' ! j)" if "j < length (threads c')" for j
  proof (cases "j = i")
    case True
    with that ok' show ?thesis by (simp add: ts')
  next
    case False
    from that have j: "j < length ?ts" by (simp add: ts')
    with False others [of j] ok [of j] nth' [of j]
      pc_ok_outside_block [of "?ts ! j" evs "current_index (shared c)" "current_index (shared c')"]
    show ?thesis by simp
  qed
  show ?thesis
    unfolding sys_inv_def
  proof (intro conjI)
    show "responses (shared c') = evs" by (rule resp')
    show "length (threads c') = length evs" by (simp add: ts' len)
    show "0 \<le> current_index (shared c')" by (rule k')
    show "current_index (shared c') \<le> int (length evs)" by (rule k')
    show "lock_held c' = (\<exists>i<length (threads c'). in_block (threads c' ! i))" by (rule a)
    show "\<forall>i<length (threads c'). \<forall>j<length (threads c').
            in_block (threads c' ! i) \<and> in_block (threads c' ! j) \<longrightarrow> i = j"
      using b by blast
    show "(\<Sum>t\<leftarrow>threads c'. drawn t) = mset (take (nat (current_index (shared c'))) evs)"
      by (rule d)
    show "\<forall>i<length (threads c'). pc_ok evs (current_index (shared c')) (threads c' ! i)"
      using e by blast
  qed
qed


lemma thread_step_inv:
  assumes inv: "sys_inv evs c" and st: "thread_step i c = Some c'"
  shows "sys_inv evs c'"
proof -
  let ?ts = "threads c" and ?k = "current_index (shared c)"
  note inv' = inv [unfolded sys_inv_def]
  from st have i: "i < length ?ts"
    by (simp add: thread_step_def split: if_splits)
  from inv' have resp: "responses (shared c) = evs" by (elim conjE)
  from inv' have len: "length ?ts = length evs" by (elim conjE)
  from inv' have k0: "0 \<le> ?k" by (elim conjE)
  from inv' have kM: "?k \<le> int (length evs)" by (elim conjE)
  from inv' have dr: "(\<Sum>t \<leftarrow> ?ts. drawn t) = mset (take (nat ?k) evs)" by (elim conjE)
  from inv' have "\<forall>j < length ?ts. pc_ok evs ?k (?ts ! j)" by (elim conjE)
  with i have ok: "pc_ok evs ?k (?ts ! i)" by blast
  from inv' have "lock_held c \<longleftrightarrow> (\<exists>j < length ?ts. in_block (?ts ! j))"
    by (elim conjE)
  with i have held: "lock_held c" if "in_block (?ts ! i)"
    using that by blast
  show ?thesis
  proof (cases "?ts ! i")
    case Idle
    with st i have free: "\<not> lock_held c"
      and c': "c' = c\<lparr>lock_held := True, threads := ?ts[i := AtTest]\<rparr>"
      by (auto simp add: thread_step_def split: if_splits)
    show ?thesis
      by (rule sys_inv_update [OF inv i, where new = AtTest])
        (simp_all add: c' free resp k0 kM dr Idle)
  next
    case AtTest
    with st i have c': "c' = c\<lparr>threads := ?ts
        [i := if ?k \<ge> int (length (responses (shared c))) then AtReturn None else AtFetch]\<rparr>"
      by (simp add: thread_step_def)
    from AtTest have "drawn (?ts ! i) = {#}" by simp
    from size_drawn_less [OF i this] dr len have "min (length evs) (nat ?k) < length evs"
      by simp
    with k0 have less: "?k < int (length evs)" by simp
    with c' resp have c'': "c' = c\<lparr>threads := ?ts[i := AtFetch]\<rparr>" by simp
    show ?thesis
      by (rule sys_inv_update [OF inv i, where new = AtFetch])
        (use held in \<open>simp_all add: c'' resp k0 kM dr AtTest less\<close>)
  next
    case AtFetch
    with ok have less: "?k < int (length evs)" by simp
    with k0 resp have "py_index (responses (shared c)) ?k = Inr (evs ! nat ?k)"
      by (simp add: py_index_def)
    with st i AtFetch have c': "c' = c\<lparr>threads := ?ts[i := AtIncr (evs ! nat ?k)]\<rparr>"
      by (simp add: thread_step_def)
    show ?thesis
      by (rule sys_inv_update [OF inv i, where new = "AtIncr (evs ! nat ?k)"])
        (use held in \<open>simp_all add: c' resp k0 kM dr AtFetch less\<close>)
  next
    case (AtIncr r)
    with ok have less: "?k < int (length evs)" and r: "r = evs ! nat ?k" by simp_all
    from st i AtIncr have c': "c' = c\<lparr>shared := (shared c)\<lparr>current_index := ?k + 1\<rparr>,
        threads := ?ts[i := AtReturn (Some r)]\<rparr>"
      by (simp add: thread_step_def)
    from k0 have n: "nat (?k + 1) = Suc (nat ?k)" by simp
    from less k0 have "nat ?k < length evs" by simp
    then have t: "take (Suc (nat ?k)) evs = take (nat ?k) evs @ [evs ! nat ?k]"
      by (rule take_Suc_conv_app_nth)
    show ?thesis
      by (rule sys_inv_update [OF inv i, where new = "AtReturn (Some r)"])
        (use less k0 held in \<open>simp_all add: c' resp dr AtIncr n t r\<close>)
  next
    case (AtReturn r)
    with ok obtain x where x: "r = Some x" by auto
    from st i AtReturn have c': "c' = c\<lparr>lock_held := False, threads := ?ts[i := Done (Inr r)]\<rparr>"
      by (simp add: thread_step_def)
    show ?thesis
      by (rule sys_inv_update [OF inv i, where new = "Done (Inr r)"])
        (simp_all add: c' resp k0 kM dr AtReturn x)
  next
    case (AtRaise e)
    with ok show ?thesis by simp
  next
    case (Done x)
    with st i show ?thesis by (simp add: thread_step_def)
  qed
qed

lemma run_inv: "sys_inv evs c \<Longrightarrow> run sched c = Some c' \<Longrightarrow> sys_inv evs c'"
proof (induction sched arbitrary: c)
  case Nil
  then show ?case by simp
next
  case (Cons i sched)
  from Cons.prems(2) obtain c1 where s: "thread_step i c = Some c1" and r: "run sched c1 = Some c'"
    by (auto split: option.splits)
  from Cons.IH [OF thread_step_inv [OF Cons.prems(1) s] r] show ?case .
qed


lemma results_of_done:
  "\<forall>t \<in> set ts. is_done t \<and> pc_ok evs k t \<Longrightarrow>
   mset (concat (map outcome ts)) = image_mset (\<lambda>e. Inr (Some e)) (\<Sum>t \<leftarrow> ts. drawn t)
   \<and> size (\<Sum>t \<leftarrow> ts. drawn t) = length ts"
proof (induction ts)
  case Nil
  then show ?case by simp
next
  case (Cons a ts)
  from Cons.prems have "is_done a" and "pc_ok evs k a" by simp_all
  then obtain e where a: "a = Done (Inr (Some e))"
    by (cases a) (auto split: sum.splits)
  from Cons.prems have "\<forall>t \<in> set ts. is_done t \<and> pc_ok evs k t" by simp
  from Cons.IH [OF this] a show ?case by simp
qed

lemma all_done_results:
  assumes inv: "sys_inv evs c" and fin: "all_done c"
  shows "mset (results c) = mset (map (\<lambda>e. Inr (Some e)) evs)"
proof -
  let ?ts = "threads c" and ?k = "current_index (shared c)"
  note inv' = inv [unfolded sys_inv_def]
  from inv' have len: "length ?ts = length evs" by (elim conjE)
  from inv' have dr: "(\<Sum>t \<leftarrow> ?ts. drawn t) = mset (take (nat ?k) evs)" by (elim conjE)
  from inv' have ok: "\<forall>j < length ?ts. pc_ok evs ?k (?ts ! j)" by (elim conjE)
  have "\<forall>t \<in> set ?ts. is_done t \<and> pc_ok evs ?k t"
  proof
    fix t assume t: "t \<in> set ?ts"
    then obtain j where "j < length ?ts" "?ts ! j = t"
      by (auto simp: in_set_conv_nth)
    with ok have "pc_ok evs ?k t" by blast
    moreover from fin t have "is_done t" by (simp add: all_done_def list_all_iff)
    ultimately show "is_done t \<and> pc_ok evs ?k t" by simp
  qed
  from results_of_done [OF this]
  have m: "mset (results c) = image_mset (\<lambda>e. Inr (Some e)) (\<Sum>t \<leftarrow> ?ts. drawn t)"
    and sz: "size (\<Sum>t \<leftarrow> ?ts. drawn t) = length ?ts"
    by (simp_all add: results_def)
  from sz dr len have "min (length evs) (nat ?k) = length evs" by simp
  then have "take (nat ?k) evs = evs" by simp
  with m dr show ?thesis by simp
qed

lemma in_block_can_step:
  "i < length (threads c) \<Longrightarrow> in_block (threads c ! i) \<Longrightarrow> thread_step i c \<noteq> None"
  by (cases "threads c ! i") (simp_all add: thread_step_def)

lemma progress:
  assumes inv: "sys_inv evs c" and nfin: "\<not> all_done c"
  shows "\<exists>i < length evs. thread_step i c \<noteq> None"
proof -
  let ?ts = "threads c"
  note inv' = inv [unfolded sys_inv_def]
  from inv' have len: "length ?ts = length evs" by (elim conjE)
  from inv' have lock: "lock_held c \<longleftrightarrow> (\<exists>j < length ?ts. in_block (?ts ! j))"
    by (elim conjE)
  from nfin obtain t where "t \<in> set ?ts" "\<not> is_done t"
    by (auto simp: all_done_def list_all_iff)
  then obtain j where j: "j < length ?ts" "\<not> is_done (?ts ! j)"
    by (auto simp: in_set_conv_nth)
  show ?thesis
  proof (cases "lock_held c")
    case True
    with lock obtain i where "i < length ?ts" "in_block (?ts ! i)" by blast
    with in_block_can_step [of i c] len show ?thesis by auto
  next
    case False
    with lock j have "\<not> in_block (?ts ! j)" by blast
    with j have "?ts ! j = Idle" by (cases "?ts ! j") simp_all
    with False j have "thread_step j c \<noteq> None" by (simp add: thread_step_def)
    with j len show ?thesis by auto
  qed
qed

lemma thread_step_steps_left:
  assumes "thread_step i c = Some c'"
  shows "Suc (\<Sum>t \<leftarrow> threads c'. steps_left t) \<le> (\<Sum>t \<leftarrow> threads c. steps_left t)"
proof -
  from assms have i: "i < length (threads c)"
    by (simp add: thread_step_def split: if_splits)
  from assms i obtain new where ts': "threads c' = (threads c)[i := new]"
    and less: "steps_left new < steps_left (threads c ! i)"
    by (cases "threads c ! i")
       (auto simp add: thread_step_def split: if_splits sum.splits)
  from sum_list_map_update [OF i, of steps_left new] less ts' show ?thesis
    by simp
qed

lemma run_steps_left:
  "run sched c = Some c' \<Longrightarrow>
   length sched + (\<Sum>t \<leftarrow> threads c'. steps_left t) \<le> (\<Sum>t \<leftarrow> threads c. steps_left t)"
proof (induction sched arbitrary: c)
  case Nil
  then show ?case by simp
next
  case (Cons i sched)
  from Cons.prems obtain c1 where s: "thread_step i c = Some c1" and r: "run sched c1 = Some c'"
    by (auto split: option.splits)
  from Cons.IH [OF r] thread_step_steps_left [OF s] show ?case by simp
qed

lemma steps_left_start: "(\<Sum>t \<leftarrow> threads (start evs n). steps_left t) = 5 * n"
  by (simp add: start_def sum_list_replicate)

text \<open>
  C9.  \<open>M\<close> threads each call \<open>get_next_response\<close> once on a state constructed with \<open>M\<close>
  events.  For every interleaving \<open>sched\<close> of their statements that the scheduler can
  execute: once all calls are over, the values returned are the queued events, each exactly
  as often as it is queued, none missing and no \<open>None\<close> among them (and they are pairwise
  distinct when the events are); while some call is not over, some thread can move (the
  lock never deadlocks); and no interleaving has more than \<open>5 * M\<close> steps, so every
  execution ends with all calls over.
\<close>

theorem concurrent_draws_each_event_once:
  assumes "run sched (start evs (length evs)) = Some c"
  shows "(all_done c \<longrightarrow>
            mset (results c) = mset (map (\<lambda>e. Inr (Some e)) evs)
            \<and> length (results c) = length evs
            \<and> (distinct evs \<longrightarrow> distinct (results c)))
         \<and> (\<not> all_done c \<longrightarrow> (\<exists>i < length evs. thread_step i c \<noteq> None))
         \<and> length sched \<le> 5 * length evs"
proof -
  from run_inv [OF start_inv assms] have inv: "sys_inv evs c" .
  have fin: "mset (results c) = mset (map (\<lambda>e. Inr (Some e)) evs)
      \<and> length (results c) = length evs
      \<and> (distinct evs \<longrightarrow> distinct (results c))" if "all_done c"
  proof -
    from all_done_results [OF inv that]
    have m: "mset (results c) = mset (map (\<lambda>e. Inr (Some e)) evs)" .
    then have l: "length (results c) = length evs"
      by (metis length_map size_mset)
    have "distinct (map (\<lambda>e. Inr (Some e) :: py_error + 'a option) evs)" if "distinct evs"
      using that by (simp add: distinct_map inj_on_def)
    with m have "distinct (results c)" if "distinct evs"
      using that by (metis mset_eq_imp_distinct_iff)
    with m l show ?thesis by blast
  qed
  from run_steps_left [OF assms] have "length sched \<le> 5 * length evs"
    by (simp add: steps_left_start)
  with fin progress [OF inv] show ?thesis by blast
qed


theorem concurrent_draws_each_event_once_witness:
  "run [1, 1, 1, 1, 1, 0, 0, 0, 0, 0] (start [10, 20 :: nat] (length [10, 20 :: nat])) =
     Some \<lparr>shared = \<lparr>responses = [10, 20], current_index = 2\<rparr>, lock_held = False,
           threads = [Done (Inr (Some 20)), Done (Inr (Some 10))]\<rparr>
   \<and> all_done \<lparr>shared = \<lparr>responses = [10, 20 :: nat], current_index = 2\<rparr>, lock_held = False,
           threads = [Done (Inr (Some 20)), Done (Inr (Some 10))]\<rparr>
   \<and> results \<lparr>shared = \<lparr>responses = [10, 20 :: nat], current_index = 2\<rparr>, lock_held = False,
           threads = [Done (Inr (Some 20)), Done (Inr (Some 10))]\<rparr> =
       [Inr (Some 20), Inr (Some 10)]
   \<and> mset [Inr (Some 20), Inr (Some (10 :: nat)) :: py_error + nat option] =
       mset (map (\<lambda>e. Inr (Some e)) [10, 20])
   \<and> distinct [Inr (Some 20), Inr (Some (10 :: nat)) :: py_error + nat option]"
proof -
  let ?c = "\<lparr>shared = \<lparr>responses = [10, 20 :: nat], current_index = 2\<rparr>, lock_held = False,
           threads = [Done (Inr (Some 20)), Done (Inr (Some 10))]\<rparr>"
  have r: "run [1, 1, 1, 1, 1, 0, 0, 0, 0, 0] (start [10, 20 :: nat] (length [10, 20 :: nat])) = Some ?c"
    by (simp add: start_def TrajectoryReplayState_init_def thread_step_def py_index_def
          eval_nat_numeral)
  have d: "all_done ?c" by (simp add: all_done_def)
  have res: "results ?c = [Inr (Some 20), Inr (Some 10)]" by (simp add: results_def)
  from concurrent_draws_each_event_once [OF r] d res
  have "mset [Inr (Some 20), Inr (Some (10 :: nat)) :: py_error + nat option] =
          mset (map (\<lambda>e. Inr (Some e)) [10, 20])
        \<and> distinct [Inr (Some 20), Inr (Some (10 :: nat)) :: py_error + nat option]"
    by simp
  with r d res show ?thesis by simp
qed


end
